theory Spec2Isabelle
  imports Main "HOL-Library.AList"
begin

section \<open>Python values\<close>

text \<open>
  The inventory system of \<^verbatim>\<open>inventory_system.py\<close> is dynamically typed: \<^verbatim>\<open>add_item\<close> and
  \<^verbatim>\<open>remove_item\<close> test their arguments with \<^verbatim>\<open>isinstance\<close>, and \<^verbatim>\<open>load_data\<close> stores
  whatever \<^verbatim>\<open>json.loads\<close> returns. The embedding therefore works on a universe of Python values.

  A Python \<^verbatim>\<open>str\<close> is a sequence of code points; it is modelled as a list of natural numbers
  (the code points), and \<open>ascii\<close> turns an ASCII literal into such a list. A \<^verbatim>\<open>dict\<close> is an
  association list in insertion order; all keys that this program ever stores are strings
  (\<^verbatim>\<open>add_item\<close> checks it, JSON objects have string keys only). An \<^verbatim>\<open>int\<close> is unbounded, and
  so is its conversion to and from decimal text (the limit that CPython can put on the
  number of digits is not modelled). A \<^verbatim>\<open>float\<close> is kept as the number literal it was read
  from; its arithmetic is not part of the embedding.
\<close>

type_synonym pystr = "nat list"

definition ascii :: "string \<Rightarrow> pystr" where
  "ascii s = map of_char s"

datatype pyval =
    PNone
  | PBool bool
  | PInt int
  | PFloat pystr
  | PStr pystr
  | PList "pyval list"
  | PDict "(pystr \<times> pyval) list"

text \<open>
  Exceptions that reach the caller. \<open>Unmodelled\<close> marks a computation the embedding does not
  follow (floating point arithmetic, comparison of lists): nothing is claimed about it.
  \<^verbatim>\<open>FileNotFoundError\<close>, \<^verbatim>\<open>JSONDecodeError\<close>, \<^verbatim>\<open>IOError\<close> on writing and the \<^verbatim>\<open>KeyError\<close> of
  \<^verbatim>\<open>remove_item\<close> are caught inside the methods and are branches of the definitions below.
\<close>

datatype pyerr = KeyError | TypeError | AttributeError | IndexError | OSError | Unmodelled

text \<open>\<^verbatim>\<open>isinstance(v, int)\<close>: \<^verbatim>\<open>bool\<close> is a subclass of \<^verbatim>\<open>int\<close>.\<close>

fun as_int :: "pyval \<Rightarrow> int option" where
  "as_int (PInt i) = Some i"
| "as_int (PBool b) = Some (if b then 1 else 0)"
| "as_int _ = None"

definition isinstance_int :: "pyval \<Rightarrow> bool" where
  "isinstance_int v = (as_int v \<noteq> None)"

fun is_float :: "pyval \<Rightarrow> bool" where
  "is_float (PFloat _) = True"
| "is_float _ = False"

definition is_number :: "pyval \<Rightarrow> bool" where
  "is_number v = (isinstance_int v \<or> is_float v)"

text \<open>\<^verbatim>\<open>a + b\<close>, \<^verbatim>\<open>a - b\<close>, \<^verbatim>\<open>a < b\<close>, \<^verbatim>\<open>a <= b\<close> on Python values.\<close>

definition py_add :: "pyval \<Rightarrow> pyval \<Rightarrow> pyerr + pyval" where
  "py_add a b =
    (case (as_int a, as_int b) of
       (Some x, Some y) \<Rightarrow> Inr (PInt (x + y))
     | _ \<Rightarrow>
       if is_number a \<and> is_number b then Inl Unmodelled
       else (case (a, b) of
               (PStr s, PStr t) \<Rightarrow> Inr (PStr (s @ t))
             | (PList xs, PList ys) \<Rightarrow> Inr (PList (xs @ ys))
             | _ \<Rightarrow> Inl TypeError))"

definition py_sub :: "pyval \<Rightarrow> pyval \<Rightarrow> pyerr + pyval" where
  "py_sub a b =
    (case (as_int a, as_int b) of
       (Some x, Some y) \<Rightarrow> Inr (PInt (x - y))
     | _ \<Rightarrow> if is_number a \<and> is_number b then Inl Unmodelled else Inl TypeError)"

fun str_lt :: "pystr \<Rightarrow> pystr \<Rightarrow> bool" where
  "str_lt [] [] = False"
| "str_lt [] (y # ys) = True"
| "str_lt (x # xs) [] = False"
| "str_lt (x # xs) (y # ys) = (x < y \<or> (x = y \<and> str_lt xs ys))"

definition py_lt :: "pyval \<Rightarrow> pyval \<Rightarrow> pyerr + bool" where
  "py_lt a b =
    (case (as_int a, as_int b) of
       (Some x, Some y) \<Rightarrow> Inr (x < y)
     | _ \<Rightarrow>
       if is_number a \<and> is_number b then Inl Unmodelled
       else (case (a, b) of
               (PStr s, PStr t) \<Rightarrow> Inr (str_lt s t)
             | (PList xs, PList ys) \<Rightarrow> Inl Unmodelled
             | _ \<Rightarrow> Inl TypeError))"

definition py_le :: "pyval \<Rightarrow> pyval \<Rightarrow> pyerr + bool" where
  "py_le a b =
    (case (as_int a, as_int b) of
       (Some x, Some y) \<Rightarrow> Inr (x \<le> y)
     | _ \<Rightarrow>
       if is_number a \<and> is_number b then Inl Unmodelled
       else (case (a, b) of
               (PStr s, PStr t) \<Rightarrow> Inr (\<not> str_lt t s)
             | (PList xs, PList ys) \<Rightarrow> Inl Unmodelled
             | _ \<Rightarrow> Inl TypeError))"

section \<open>The json module\<close>

subsection \<open>\<^verbatim>\<open>json.dumps(obj, indent=4)\<close>\<close>

text \<open>
  The encoder of the standard library with its defaults (\<^verbatim>\<open>ensure_ascii=True\<close>, separators
  \<^verbatim>\<open>','\<close> and \<^verbatim>\<open>': '\<close>) and an indentation of four spaces per nesting level.
\<close>

definition hexdigit :: "nat \<Rightarrow> nat" where
  "hexdigit d = (if d < 10 then 48 + d else 87 + d)"

definition hex4 :: "nat \<Rightarrow> pystr" where
  "hex4 n = [hexdigit (n div 4096 mod 16), hexdigit (n div 256 mod 16),
             hexdigit (n div 16 mod 16), hexdigit (n mod 16)]"

text \<open>
  One character of a string: the short escapes, printable ASCII as it is, \<^verbatim>\<open>\uXXXX\<close> for the
  rest of the basic plane, and a surrogate pair above it.
\<close>

definition esc_char :: "nat \<Rightarrow> pystr" where
  "esc_char c =
    (if c = 34 then [92, 34]
     else if c = 92 then [92, 92]
     else if c = 10 then [92, 110]
     else if c = 13 then [92, 114]
     else if c = 9 then [92, 116]
     else if c = 8 then [92, 98]
     else if c = 12 then [92, 102]
     else if 32 \<le> c \<and> c \<le> 126 then [c]
     else if c < 65536 then [92, 117] @ hex4 c
     else [92, 117] @ hex4 (55296 + (c - 65536) div 1024 mod 1024)
        @ [92, 117] @ hex4 (56320 + (c - 65536) mod 1024))"

definition encode_basestring_ascii :: "pystr \<Rightarrow> pystr" where
  "encode_basestring_ascii s = 34 # concat (map esc_char s) @ [34]"

fun digit_chars :: "nat \<Rightarrow> pystr" where
  "digit_chars n = (if n < 10 then [48 + n] else digit_chars (n div 10) @ [48 + n mod 10])"

declare digit_chars.simps [simp del]

definition int_repr :: "int \<Rightarrow> pystr" where
  "int_repr i = (if i < 0 then 45 # digit_chars (nat (- i)) else digit_chars (nat i))"

definition newline_indent :: "nat \<Rightarrow> pystr" where
  "newline_indent lvl = 10 # replicate (4 * lvl) 32"

text \<open>
  \<open>iterencode lvl v\<close> is the text of \<open>v\<close> at nesting level \<open>lvl\<close>; \<open>iterencode_list\<close> and
  \<open>iterencode_dict\<close> give the items of a non-empty container, separated by a comma and the
  newline with the indentation of the items. \<open>None\<close>: the value holds a float.
\<close>

fun iterencode :: "nat \<Rightarrow> pyval \<Rightarrow> pystr option"
  and iterencode_list :: "nat \<Rightarrow> pyval list \<Rightarrow> pystr option"
  and iterencode_dict :: "nat \<Rightarrow> (pystr \<times> pyval) list \<Rightarrow> pystr option"
where
  "iterencode lvl PNone = Some (ascii ''null'')"
| "iterencode lvl (PBool b) = Some (if b then ascii ''true'' else ascii ''false'')"
| "iterencode lvl (PInt i) = Some (int_repr i)"
| "iterencode lvl (PFloat x) = None"
| "iterencode lvl (PStr s) = Some (encode_basestring_ascii s)"
| "iterencode lvl (PList vs) =
    (if vs = [] then Some (ascii ''[]'')
     else (case iterencode_list (Suc lvl) vs of
             None \<Rightarrow> None
           | Some body \<Rightarrow> Some (91 # newline_indent (Suc lvl) @ body @ newline_indent lvl @ [93])))"
| "iterencode lvl (PDict kvs) =
    (if kvs = [] then Some (ascii ''{}'')
     else (case iterencode_dict (Suc lvl) kvs of
             None \<Rightarrow> None
           | Some body \<Rightarrow> Some (123 # newline_indent (Suc lvl) @ body @ newline_indent lvl @ [125])))"
| "iterencode_list lvl [] = Some []"
| "iterencode_list lvl (v # vs) =
    (case iterencode lvl v of
       None \<Rightarrow> None
     | Some a \<Rightarrow>
       (case iterencode_list lvl vs of
          None \<Rightarrow> None
        | Some rest \<Rightarrow> Some (if vs = [] then a else a @ 44 # newline_indent lvl @ rest)))"
| "iterencode_dict lvl [] = Some []"
| "iterencode_dict lvl ((k, v) # kvs) =
    (case iterencode lvl v of
       None \<Rightarrow> None
     | Some a \<Rightarrow>
       (case iterencode_dict lvl kvs of
          None \<Rightarrow> None
        | Some rest \<Rightarrow>
            Some (encode_basestring_ascii k @ [58, 32] @
                  (if kvs = [] then a else a @ 44 # newline_indent lvl @ rest))))"


subsection \<open>\<^verbatim>\<open>json.loads(s)\<close>\<close>

definition is_ws :: "nat \<Rightarrow> bool" where
  "is_ws c = (c = 32 \<or> c = 9 \<or> c = 10 \<or> c = 13)"

definition skip_ws :: "pystr \<Rightarrow> pystr" where
  "skip_ws cs = dropWhile is_ws cs"

definition is_digit :: "nat \<Rightarrow> bool" where
  "is_digit c = (48 \<le> c \<and> c \<le> 57)"

definition hexval :: "nat \<Rightarrow> nat option" where
  "hexval c =
    (if 48 \<le> c \<and> c \<le> 57 then Some (c - 48)
     else if 97 \<le> c \<and> c \<le> 102 then Some (c - 87)
     else if 65 \<le> c \<and> c \<le> 70 then Some (c - 55)
     else None)"

definition decode_uXXXX :: "pystr \<Rightarrow> (nat \<times> pystr) option" where
  "decode_uXXXX cs =
    (case cs of
       a # b # c # d # r \<Rightarrow>
         (case (hexval a, hexval b, hexval c, hexval d) of
            (Some w, Some x, Some y, Some z) \<Rightarrow> Some (4096 * w + 256 * x + 16 * y + z, r)
          | _ \<Rightarrow> None)
     | _ \<Rightarrow> None)"

text \<open>The one-character escapes after a backslash.\<close>

definition unescape :: "nat \<Rightarrow> nat option" where
  "unescape e =
    (if e = 34 then Some 34
     else if e = 92 then Some 92
     else if e = 47 then Some 47
     else if e = 98 then Some 8
     else if e = 102 then Some 12
     else if e = 110 then Some 10
     else if e = 114 then Some 13
     else if e = 116 then Some 9
     else None)"

text \<open>
  After a high surrogate \<open>u\<close>: a following \<^verbatim>\<open>\uXXXX\<close> that is a low surrogate is joined with it
  into one code point.
\<close>

definition join_surrogate :: "nat \<Rightarrow> pystr \<Rightarrow> (nat \<times> pystr) option" where
  "join_surrogate u cs =
    (if 55296 \<le> u \<and> u \<le> 56319 then
       (case cs of
          b # x # r \<Rightarrow>
            if b = 92 \<and> x = 117 then
              (case decode_uXXXX r of
                 Some (u2, r2) \<Rightarrow>
                   if 56320 \<le> u2 \<and> u2 \<le> 57343
                   then Some (65536 + ((u - 55296) * 1024 + (u2 - 56320)), r2)
                   else None
               | None \<Rightarrow> None)
            else None
        | _ \<Rightarrow> None)
     else None)"

definition cons_char :: "nat \<Rightarrow> (pystr \<times> pystr) option \<Rightarrow> (pystr \<times> pystr) option" where
  "cons_char c res = (case res of None \<Rightarrow> None | Some (s, r) \<Rightarrow> Some (c # s, r))"

lemma decode_uXXXX_shorter: "decode_uXXXX cs = Some (u, r) \<Longrightarrow> length r < length cs"
  by (auto simp: decode_uXXXX_def split: list.splits option.splits)

lemma join_surrogate_shorter: "join_surrogate u cs = Some (u', r) \<Longrightarrow> length r < length cs"
  by (auto simp: join_surrogate_def split: list.splits option.splits if_splits
           dest!: decode_uXXXX_shorter)

text \<open>
  \<open>scanstring\<close> reads a string literal from just after its opening quote, and returns the
  string and the text after the closing quote (strict mode: a control character is an error).
\<close>

function scanstring :: "pystr \<Rightarrow> (pystr \<times> pystr) option" where
  "scanstring [] = None"
| "scanstring (c # cs) =
    (if c = 34 then Some ([], cs)
     else if c = 92 then
       (case cs of
          [] \<Rightarrow> None
        | e # r \<Rightarrow>
            if e = 117 then
              (case decode_uXXXX r of
                 None \<Rightarrow> None
               | Some (u, r1) \<Rightarrow>
                   (case join_surrogate u r1 of
                      Some (u', r2) \<Rightarrow> cons_char u' (scanstring r2)
                    | None \<Rightarrow> cons_char u (scanstring r1)))
            else (case unescape e of
                    None \<Rightarrow> None
                  | Some x \<Rightarrow> cons_char x (scanstring r)))
     else if c < 32 then None
     else cons_char c (scanstring cs))"
  by pat_completeness auto
termination
proof (relation "measure length")
  show "wf (measure length)" by simp
next
  fix c cs e r x2 u r1 x2a u' r2
  assume "decode_uXXXX r = Some x2" "(u, r1) = x2" "join_surrogate u r1 = Some x2a" "(u', r2) = x2a"
    "cs = e # r"
  then show "(r2, c # cs) \<in> measure length"
    using decode_uXXXX_shorter[of r u r1] join_surrogate_shorter[of u r1 u' r2] by auto
next
  fix c cs e r x2 u r1
  assume "decode_uXXXX r = Some x2" "(u, r1) = x2" "cs = e # r"
  then show "(r1, c # cs) \<in> measure length"
    using decode_uXXXX_shorter[of r u r1] by auto
qed auto


text \<open>
  Numbers: the integer part \<^verbatim>\<open>-?(0|[1-9][0-9]*)\<close>, then an optional fraction \<^verbatim>\<open>\.[0-9]+\<close> and
  an optional exponent \<^verbatim>\<open>[eE][-+]?[0-9]+\<close>. Without fraction and exponent the literal is read
  as an \<^verbatim>\<open>int\<close>, otherwise as a \<^verbatim>\<open>float\<close>.
\<close>

definition match_integer :: "pystr \<Rightarrow> (pystr \<times> pystr) option" where
  "match_integer cs =
    (let (sign, r) = (case cs of [] \<Rightarrow> ([], cs) | c # r \<Rightarrow> if c = 45 then ([45], r) else ([], cs))
     in case r of
          [] \<Rightarrow> None
        | c # r' \<Rightarrow>
            if c = 48 then Some (sign @ [48], r')
            else if 49 \<le> c \<and> c \<le> 57
              then Some (sign @ c # takeWhile is_digit r', dropWhile is_digit r')
            else None)"

definition match_frac :: "pystr \<Rightarrow> pystr \<times> pystr" where
  "match_frac cs =
    (case cs of
       c # d # r \<Rightarrow>
         if c = 46 \<and> is_digit d then (c # d # takeWhile is_digit r, dropWhile is_digit r)
         else ([], cs)
     | _ \<Rightarrow> ([], cs))"

definition match_exp :: "pystr \<Rightarrow> pystr \<times> pystr" where
  "match_exp cs =
    (case cs of
       [] \<Rightarrow> ([], cs)
     | c # r \<Rightarrow>
         if c = 101 \<or> c = 69 then
           (let (sg, r1) = (case r of [] \<Rightarrow> ([], r)
                            | d # r' \<Rightarrow> if d = 43 \<or> d = 45 then ([d], r') else ([], r))
            in case r1 of
                 [] \<Rightarrow> ([], cs)
               | d # r2 \<Rightarrow>
                   if is_digit d then (c # sg @ d # takeWhile is_digit r2, dropWhile is_digit r2)
                   else ([], cs))
         else ([], cs))"

definition nat_of_digits :: "pystr \<Rightarrow> nat" where
  "nat_of_digits ds = foldl (\<lambda>a c. 10 * a + (c - 48)) 0 ds"

definition int_of_lexeme :: "pystr \<Rightarrow> int" where
  "int_of_lexeme l =
    (case l of
       [] \<Rightarrow> 0
     | c # r \<Rightarrow> if c = 45 then - int (nat_of_digits r) else int (nat_of_digits l))"

definition match_number :: "pystr \<Rightarrow> (pyval \<times> pystr) option" where
  "match_number cs =
    (case match_integer cs of
       None \<Rightarrow> None
     | Some (ip, r) \<Rightarrow>
         (let (fr, r1) = match_frac r; (ex, r2) = match_exp r1
          in if fr = [] \<and> ex = [] then Some (PInt (int_of_lexeme ip), r2)
             else Some (PFloat (ip @ fr @ ex), r2)))"

definition starts_with :: "pystr \<Rightarrow> pystr \<Rightarrow> bool" where
  "starts_with cs w = (take (length w) cs = w)"

text \<open>\<^verbatim>\<open>dict(pairs)\<close>: a later pair with the same key replaces the value of the earlier one.\<close>

definition dict_of_pairs :: "(pystr \<times> pyval) list \<Rightarrow> (pystr \<times> pyval) list" where
  "dict_of_pairs ps = foldl (\<lambda>d (k, v). AList.update k v d) [] ps"

text \<open>
  \<open>scan_once\<close> reads one value at the head of the text; \<open>scan_array\<close> continues an array at
  the position of an element, \<open>scan_object\<close> an object at the opening quote of a key. The
  first argument bounds the number of nested calls; the bound with which \<open>json_loads\<close> starts
  is enough for every text, as is proved below. (CPython bounds the nesting by its recursion
  limit; that limit is not modelled.)
\<close>

fun scan_once :: "nat \<Rightarrow> pystr \<Rightarrow> (pyval \<times> pystr) option"
  and scan_array :: "nat \<Rightarrow> pyval list \<Rightarrow> pystr \<Rightarrow> (pyval \<times> pystr) option"
  and scan_object :: "nat \<Rightarrow> (pystr \<times> pyval) list \<Rightarrow> pystr \<Rightarrow> (pyval \<times> pystr) option"
where
  "scan_once 0 cs = None"
| "scan_once (Suc f) [] = None"
| "scan_once (Suc f) (c # cs) =
    (if c = 34 then
       (case scanstring cs of None \<Rightarrow> None | Some (s, r) \<Rightarrow> Some (PStr s, r))
     else if c = 123 then
       (case skip_ws cs of
          [] \<Rightarrow> None
        | d # r \<Rightarrow> if d = 125 then Some (PDict [], r) else scan_object f [] (d # r))
     else if c = 91 then
       (case skip_ws cs of
          [] \<Rightarrow> None
        | d # r \<Rightarrow> if d = 93 then Some (PList [], r) else scan_array f [] (d # r))
     else if starts_with (c # cs) (ascii ''null'') then Some (PNone, drop 4 (c # cs))
     else if starts_with (c # cs) (ascii ''true'') then Some (PBool True, drop 4 (c # cs))
     else if starts_with (c # cs) (ascii ''false'') then Some (PBool False, drop 5 (c # cs))
     else (case match_number (c # cs) of
             Some res \<Rightarrow> Some res
           | None \<Rightarrow>
               if starts_with (c # cs) (ascii ''NaN'')
                 then Some (PFloat (ascii ''NaN''), drop 3 (c # cs))
               else if starts_with (c # cs) (ascii ''Infinity'')
                 then Some (PFloat (ascii ''Infinity''), drop 8 (c # cs))
               else if starts_with (c # cs) (ascii ''-Infinity'')
                 then Some (PFloat (ascii ''-Infinity''), drop 9 (c # cs))
               else None))"
| "scan_array 0 acc cs = None"
| "scan_array (Suc f) acc cs =
    (case scan_once f cs of
       None \<Rightarrow> None
     | Some (v, r) \<Rightarrow>
         (case skip_ws r of
            [] \<Rightarrow> None
          | d # r1 \<Rightarrow>
              if d = 93 then Some (PList (acc @ [v]), r1)
              else if d = 44 then scan_array f (acc @ [v]) (skip_ws r1)
              else None))"
| "scan_object 0 acc cs = None"
| "scan_object (Suc f) acc cs =
    (case cs of
       [] \<Rightarrow> None
     | q # r \<Rightarrow>
         if q \<noteq> 34 then None
         else (case scanstring r of
                 None \<Rightarrow> None
               | Some (k, r1) \<Rightarrow>
                   (case skip_ws r1 of
                      [] \<Rightarrow> None
                    | d # r2 \<Rightarrow>
                        if d \<noteq> 58 then None
                        else (case scan_once f (skip_ws r2) of
                                None \<Rightarrow> None
                              | Some (v, r3) \<Rightarrow>
                                  (case skip_ws r3 of
                                     [] \<Rightarrow> None
                                   | e # r4 \<Rightarrow>
                                       if e = 125
                                         then Some (PDict (dict_of_pairs (acc @ [(k, v)])), r4)
                                       else if e = 44
                                         then scan_object f (acc @ [(k, v)]) (skip_ws r4)
                                       else None)))))"

text \<open>
  \<open>json_loads\<close>: leading whitespace, one value, trailing whitespace, end of text. \<open>None\<close> is
  \<^verbatim>\<open>JSONDecodeError\<close>.
\<close>

definition json_loads :: "pystr \<Rightarrow> pyval option" where
  "json_loads s =
    (case scan_once (2 * length s + 2) (skip_ws s) of
       None \<Rightarrow> None
     | Some (v, r) \<Rightarrow> if skip_ws r = [] then Some v else None)"


text \<open>
  What it means that the bound of \<open>json_loads\<close> is enough: a scan that succeeds with some
  bound consumes text, and succeeds with the same result for every bound from twice the
  length of the consumed text on.
\<close>

definition fuel_once :: "nat \<Rightarrow> bool" where
  "fuel_once f = (\<forall>cs v r. scan_once f cs = Some (v, r) \<longrightarrow>
     length r < length cs \<and> (\<forall>g. 2 * (length cs - length r) \<le> g \<longrightarrow> scan_once g cs = Some (v, r)))"

definition fuel_array :: "nat \<Rightarrow> bool" where
  "fuel_array f = (\<forall>acc cs v r. scan_array f acc cs = Some (v, r) \<longrightarrow>
     length r < length cs \<and>
     (\<forall>g. 2 * (length cs - length r) - 1 \<le> g \<longrightarrow> scan_array g acc cs = Some (v, r)))"

definition fuel_object :: "nat \<Rightarrow> bool" where
  "fuel_object f = (\<forall>acc cs v r. scan_object f acc cs = Some (v, r) \<longrightarrow>
     length r < length cs \<and>
     (\<forall>g. 2 * (length cs - length r) - 1 \<le> g \<longrightarrow> scan_object g acc cs = Some (v, r)))"

section \<open>The inventory system\<close>

text \<open>
  The state is the attribute \<^verbatim>\<open>stock_data\<close> of the one \<^verbatim>\<open>InventorySystem\<close> object, the file
  system as the program sees it, and the records passed to \<^verbatim>\<open>logging\<close> (their level; the
  message texts carry a time stamp and are not modelled).

  A path of the file system holds no file (\<open>Absent\<close>), a text file with its content as
  decoded text (\<open>Regular\<close>), or something that \<^verbatim>\<open>open(file, "r")\<close> refuses with an \<^verbatim>\<open>OSError\<close>
  other than \<^verbatim>\<open>FileNotFoundError\<close> (\<open>Unreadable\<close>: a directory, a file without read
  permission). \<open>writable\<close> tells whether \<^verbatim>\<open>open(file, "w")\<close> and the write succeed. A file
  whose bytes are not UTF-8 and a write that fails half way are not modelled.
\<close>

datatype level = INFO | WARNING | ERROR

datatype fentry = Absent | Unreadable | Regular pystr

record state =
  stock_data :: pyval
  files :: "pystr \<Rightarrow> fentry"
  writable :: "pystr \<Rightarrow> bool"
  log_records :: "level list"

definition logging :: "level \<Rightarrow> state \<Rightarrow> state" where
  "logging l s = s\<lparr>log_records := log_records s @ [l]\<rparr>"

text \<open>
  A method call returns \<open>Inr (value, state)\<close>, or \<open>Inl e\<close> when the exception \<open>e\<close> reaches
  the caller; every raise of these methods happens before their first assignment, so the
  state at an exception is the state before the call.
\<close>

type_synonym 'a result = "pyerr + ('a \<times> state)"

text \<open>\<^verbatim>\<open>__init__\<close>: the stock starts as the empty dict.\<close>

definition InventorySystem :: "state \<Rightarrow> state" where
  "InventorySystem s = s\<lparr>stock_data := PDict []\<rparr>"

text \<open>\<^verbatim>\<open>d.get(k, 0)\<close> on the entries of a dict.\<close>

definition dict_get0 :: "(pystr \<times> pyval) list \<Rightarrow> pystr \<Rightarrow> pyval" where
  "dict_get0 d k = (case map_of d k of None \<Rightarrow> PInt 0 | Some v \<Rightarrow> v)"

definition add_item :: "state \<Rightarrow> pyval \<Rightarrow> pyval \<Rightarrow> pyval result" where
  "add_item s item qty =
    (case item of
       PStr k \<Rightarrow>
         if k = ascii ''default'' then Inr (PNone, logging WARNING s)
         else if \<not> isinstance_int qty then Inr (PNone, logging WARNING s)
         else (case stock_data s of
                 PDict d \<Rightarrow>
                   (case py_add (dict_get0 d k) qty of
                      Inl e \<Rightarrow> Inl e
                    | Inr v \<Rightarrow>
                        Inr (PNone, logging INFO (s\<lparr>stock_data := PDict (AList.update k v d)\<rparr>)))
               | _ \<Rightarrow> Inl AttributeError)
     | _ \<Rightarrow> Inr (PNone, logging WARNING s))"

definition remove_item :: "state \<Rightarrow> pyval \<Rightarrow> pyval \<Rightarrow> pyval result" where
  "remove_item s item qty =
    (case item of
       PStr k \<Rightarrow>
         if \<not> isinstance_int qty then Inr (PNone, logging WARNING s)
         else (case stock_data s of
                 PDict d \<Rightarrow>
                   (case map_of d k of
                      None \<Rightarrow> Inr (PNone, logging WARNING s)
                    | Some v \<Rightarrow>
                        (case py_sub v qty of
                           Inl e \<Rightarrow> Inl e
                         | Inr v' \<Rightarrow>
                             (case py_le v' (PInt 0) of
                                Inl e \<Rightarrow> Inl e
                              | Inr b \<Rightarrow>
                                  if b
                                  then Inr (PNone, logging INFO
                                         (s\<lparr>stock_data :=
                                              PDict (AList.delete k (AList.update k v' d))\<rparr>))
                                  else Inr (PNone,
                                         s\<lparr>stock_data := PDict (AList.update k v' d)\<rparr>))))
               | _ \<Rightarrow> Inl TypeError)
     | _ \<Rightarrow> Inr (PNone, logging WARNING s))"

definition get_qty :: "state \<Rightarrow> pyval \<Rightarrow> pyval result" where
  "get_qty s item =
    (case stock_data s of
       PDict d \<Rightarrow>
         (case item of
            PStr k \<Rightarrow> Inr (dict_get0 d k, s)
          | PList _ \<Rightarrow> Inl TypeError
          | PDict _ \<Rightarrow> Inl TypeError
          | _ \<Rightarrow> Inr (PInt 0, s))
     | _ \<Rightarrow> Inl AttributeError)"

definition load_data :: "state \<Rightarrow> pystr \<Rightarrow> pyval result" where
  "load_data s file =
    (case files s file of
       Absent \<Rightarrow> Inr (PNone, (logging WARNING s)\<lparr>stock_data := PDict []\<rparr>)
     | Unreadable \<Rightarrow> Inl OSError
     | Regular text \<Rightarrow>
         (case json_loads text of
            Some v \<Rightarrow> Inr (PNone, logging INFO (s\<lparr>stock_data := v\<rparr>))
          | None \<Rightarrow> Inr (PNone, (logging ERROR s)\<lparr>stock_data := PDict []\<rparr>)))"


text \<open>
  \<^verbatim>\<open>[item for item in self.stock_data if self.stock_data[item] < threshold]\<close>: the iteration
  over a container, the subscript, and the comprehension, which stops at the first exception.
\<close>

definition py_iter :: "pyval \<Rightarrow> pyerr + pyval list" where
  "py_iter c =
    (case c of
       PDict d \<Rightarrow> Inr (map (\<lambda>(k, v). PStr k) d)
     | PList xs \<Rightarrow> Inr xs
     | PStr cs \<Rightarrow> Inr (map (\<lambda>x. PStr [x]) cs)
     | _ \<Rightarrow> Inl TypeError)"

text \<open>A sequence subscript: an index below zero counts from the end.\<close>

definition seq_index :: "'a list \<Rightarrow> int \<Rightarrow> pyerr + 'a" where
  "seq_index xs i =
    (if 0 \<le> i \<and> i < int (length xs) then Inr (xs ! nat i)
     else if i < 0 \<and> - int (length xs) \<le> i then Inr (xs ! nat (int (length xs) + i))
     else Inl IndexError)"

definition subscript :: "pyval \<Rightarrow> pyval \<Rightarrow> pyerr + pyval" where
  "subscript c key =
    (case c of
       PDict d \<Rightarrow>
         (case key of
            PStr k \<Rightarrow> (case map_of d k of None \<Rightarrow> Inl KeyError | Some v \<Rightarrow> Inr v)
          | PList _ \<Rightarrow> Inl TypeError
          | PDict _ \<Rightarrow> Inl TypeError
          | _ \<Rightarrow> Inl KeyError)
     | PList xs \<Rightarrow>
         (case as_int key of None \<Rightarrow> Inl TypeError | Some i \<Rightarrow> seq_index xs i)
     | PStr cs \<Rightarrow>
         (case as_int key of
            None \<Rightarrow> Inl TypeError
          | Some i \<Rightarrow> (case seq_index cs i of Inl e \<Rightarrow> Inl e | Inr x \<Rightarrow> Inr (PStr [x])))
     | _ \<Rightarrow> Inl TypeError)"

fun low_items :: "pyval \<Rightarrow> pyval \<Rightarrow> pyval list \<Rightarrow> pyerr + pyval list" where
  "low_items c threshold [] = Inr []"
| "low_items c threshold (item # items) =
    (case subscript c item of
       Inl e \<Rightarrow> Inl e
     | Inr v \<Rightarrow>
         (case py_lt v threshold of
            Inl e \<Rightarrow> Inl e
          | Inr b \<Rightarrow>
              (case low_items c threshold items of
                 Inl e \<Rightarrow> Inl e
               | Inr r \<Rightarrow> Inr (if b then item # r else r))))"

definition check_low_items :: "state \<Rightarrow> pyval \<Rightarrow> pyval result" where
  "check_low_items s threshold =
    (case py_iter (stock_data s) of
       Inl e \<Rightarrow> Inl e
     | Inr items \<Rightarrow>
         (case low_items (stock_data s) threshold items of
            Inl e \<Rightarrow> Inl e
          | Inr r \<Rightarrow> Inr (PList r, s)))"


text \<open>The integer that an \<^verbatim>\<open>int\<close> or \<^verbatim>\<open>bool\<close> stands for in arithmetic and comparison.\<close>

definition quantity :: "pyval \<Rightarrow> int" where
  "quantity v = (case as_int v of None \<Rightarrow> 0 | Some n \<Rightarrow> n)"

text \<open>
  An example state: the stock \<^verbatim>\<open>{"apple": 10, "banana": 2}\<close> and a file system whose only
  file \<^verbatim>\<open>bad.json\<close> holds the text \<^verbatim>\<open>{oops\<close>. The directory \<^verbatim>\<open>nowhere\<close> does not exist, so the
  path \<^verbatim>\<open>nowhere/inventory.json\<close> cannot be opened for writing (nor for reading).
\<close>

definition example :: state where
  "example =
    \<lparr>stock_data = PDict [(ascii ''apple'', PInt 10), (ascii ''banana'', PInt 2)],
     files = (\<lambda>p. if p = ascii ''bad.json'' then Regular (ascii ''{oops'') else Absent),
     writable = (\<lambda>p. p \<noteq> ascii ''nowhere/inventory.json''),
     log_records = []\<rparr>"






text \<open>
  The stock invariant of the specification: the stock is a dict, and every quantity in it is
  an integer above zero.
\<close>

definition positive_stock :: "pyval \<Rightarrow> bool" where
  "positive_stock c = (case c of PDict d \<Rightarrow> (\<forall>(k, v) \<in> set d. 0 < quantity v) | _ \<Rightarrow> False)"

text \<open>
  Sequences of the three calls that assign to \<^verbatim>\<open>stock_data\<close>. A call that raises leaves the
  state as it was, and the sequence goes on with the next call.
\<close>

datatype call = Add pyval pyval | Remove pyval pyval | Load pystr

fun step :: "state \<Rightarrow> call \<Rightarrow> pyval result" where
  "step s (Add item qty) = add_item s item qty"
| "step s (Remove item qty) = remove_item s item qty"
| "step s (Load file) = load_data s file"

fun run :: "state \<Rightarrow> call list \<Rightarrow> state" where
  "run s [] = s"
| "run s (c # cs) = (case step s c of Inl e \<Rightarrow> run s cs | Inr (v, s') \<Rightarrow> run s' cs)"

text \<open>
  The calls that keep the invariant: \<^verbatim>\<open>add_item\<close> with a quantity above zero (a quantity
  that is no \<^verbatim>\<open>int\<close> is rejected anyway), every \<^verbatim>\<open>remove_item\<close>, and \<^verbatim>\<open>load_data\<close> of a
  file that, if it parses, holds a dict of quantities above zero.
\<close>

definition admissible :: "state \<Rightarrow> call \<Rightarrow> bool" where
  "admissible s c =
    (case c of
       Add item qty \<Rightarrow> isinstance_int qty \<longrightarrow> 0 < quantity qty
     | Remove item qty \<Rightarrow> True
     | Load file \<Rightarrow>
         (case files s file of
            Regular text \<Rightarrow> (case json_loads text of None \<Rightarrow> True | Some v \<Rightarrow> positive_stock v)
          | _ \<Rightarrow> True))"

fun admissible_run :: "state \<Rightarrow> call list \<Rightarrow> bool" where
  "admissible_run s [] = True"
| "admissible_run s (c # cs) = (admissible s c \<and> admissible_run (run s [c]) cs)"

text \<open>The calls of \<^verbatim>\<open>main\<close> up to the first \<^verbatim>\<open>print\<close>.\<close>

definition demo :: "call list" where
  "demo = [Load (ascii ''inventory.json''),
           Add (PStr (ascii ''apple'')) (PInt 10),
           Add (PStr (ascii ''banana'')) (PInt 2),
           Add (PInt 123) (PStr (ascii ''ten'')),
           Remove (PStr (ascii ''apple'')) (PInt 3),
           Remove (PStr (ascii ''orange'')) (PInt 1)]"


section \<open>Validation in \<^verbatim>\<open>add_item\<close>\<close>






section \<open>Negative quantities\<close>



text \<open>
  Claim C10. \<^verbatim>\<open>remove_item\<close> has no sign check either: for an item stored with the integer
  total \<open>n\<close> and a negative integer \<open>q\<close>, the stored total becomes \<open>n + \<bar>q\<bar>\<close>, and the entry
  stays in the stock when that result is positive.
\<close>

theorem remove_item_negative:
  assumes "stock_data s = PDict d" and "map_of d k = Some v" and "as_int v = Some n"
    and "q < 0" and "0 < n - q"
  shows "remove_item s (PStr k) (PInt q)
           = Inr (PNone, s\<lparr>stock_data := PDict (AList.update k (PInt (n + \<bar>q\<bar>)) d)\<rparr>)"
  using assms by (simp add: remove_item_def isinstance_int_def py_sub_def py_le_def)

theorem remove_item_negative_witness:
  "remove_item example (PStr (ascii ''banana'')) (PInt (- 3))
      = Inr (PNone, example\<lparr>stock_data := PDict [(ascii ''apple'', PInt 10), (ascii ''banana'', PInt 5)]\<rparr>)"
  using remove_item_negative [of example "[(ascii ''apple'', PInt 10), (ascii ''banana'', PInt 2)]"
      "ascii ''banana''" "PInt 2" 2 "- 3"]
  by (simp add: example_def ascii_def)

section \<open>\<^verbatim>\<open>remove_item\<close>\<close>

text \<open>
  Claim C8. For a stock that is a dict without the key \<open>k\<close> and a quantity that is an instance
  of \<^verbatim>\<open>int\<close>, \<^verbatim>\<open>remove_item\<close> meets the \<^verbatim>\<open>KeyError\<close> of its first subscript, catches it and
  returns normally: stock and files are as before, and one warning is added to the log.
\<close>

theorem remove_item_absent:
  assumes "stock_data s = PDict d" and "map_of d k = None" and "isinstance_int qty"
  shows "remove_item s (PStr k) qty = Inr (PNone, s\<lparr>log_records := log_records s @ [WARNING]\<rparr>)"
  using assms by (simp add: remove_item_def logging_def)

theorem remove_item_absent_witness:
  "remove_item example (PStr (ascii ''orange'')) (PInt 1)
     = Inr (PNone, example\<lparr>log_records := log_records example @ [WARNING]\<rparr>)"
  using remove_item_absent [of example "[(ascii ''apple'', PInt 10), (ascii ''banana'', PInt 2)]"
      "ascii ''orange''" "PInt 1"]
  by (simp add: example_def ascii_def isinstance_int_def)

lemma low_items_subset: "low_items c t items = Inr r \<Longrightarrow> set r \<subseteq> set items"
  by (induction items arbitrary: r) (auto split: sum.splits if_splits)

lemma map_of_delete_same: "map_of (AList.delete k d) k = None"
  by (simp add: AList.delete_conv')

text \<open>
  Claim C3. For an item stored with the integer total \<open>n\<close> and an integer quantity \<open>q\<close> with
  \<open>n - q \<le> 0\<close>, \<^verbatim>\<open>remove_item\<close> deletes the entry (the other entries stay, in their order)
  and logs at level INFO. Afterwards \<^verbatim>\<open>get_qty\<close> of the item is \<open>0\<close>, the item is not among
  the keys that \<^verbatim>\<open>check_low_items\<close> iterates over, and no result of \<^verbatim>\<open>check_low_items\<close>, for
  any threshold, contains it.
\<close>

theorem remove_item_deletes_entry:
  assumes "stock_data s = PDict d" and "map_of d k = Some v" and "as_int v = Some n"
    and "as_int qty = Some q" and "n - q \<le> 0"
  shows "\<exists>s'. remove_item s (PStr k) qty = Inr (PNone, s')
           \<and> s' = s\<lparr>stock_data := PDict (AList.delete k d),
                     log_records := log_records s @ [INFO]\<rparr>
           \<and> get_qty s' (PStr k) = Inr (PInt 0, s')
           \<and> py_iter (stock_data s') = Inr (map (\<lambda>(k, v). PStr k) (AList.delete k d))
           \<and> PStr k \<notin> set (map (\<lambda>(k, v). PStr k) (AList.delete k d))
           \<and> (\<forall>threshold r s''. check_low_items s' threshold = Inr (PList r, s'')
                  \<longrightarrow> PStr k \<notin> set r)"
proof -
  let ?s' = "s\<lparr>stock_data := PDict (AList.delete k d), log_records := log_records s @ [INFO]\<rparr>"
  have rm: "remove_item s (PStr k) qty = Inr (PNone, ?s')"
    using assms
    by (simp add: remove_item_def isinstance_int_def py_sub_def py_le_def logging_def
        AList.delete_update_same)
  have get: "get_qty ?s' (PStr k) = Inr (PInt 0, ?s')"
    by (simp add: get_qty_def dict_get0_def map_of_delete_same)
  have notin: "PStr k \<notin> set (map (\<lambda>(k, v). PStr k) (AList.delete k d))"
    by (auto simp: AList.delete_eq)
  have low: "PStr k \<notin> set r" if "check_low_items ?s' threshold = Inr (PList r, s'')"
    for threshold r s''
  proof -
    from that have "low_items (PDict (AList.delete k d)) threshold
        (map (\<lambda>(k, v). PStr k) (AList.delete k d)) = Inr r"
      by (auto simp: check_low_items_def py_iter_def split: sum.splits)
    from low_items_subset [OF this] notin show ?thesis by blast
  qed
  show ?thesis
    using rm get notin low by (intro exI [of _ ?s']) (simp add: py_iter_def)
qed

theorem remove_item_deletes_entry_witness:
  "\<exists>s'. remove_item example (PStr (ascii ''banana'')) (PInt 2) = Inr (PNone, s')
      \<and> s' = example\<lparr>stock_data := PDict [(ascii ''apple'', PInt 10)],
                     log_records := log_records example @ [INFO]\<rparr>
      \<and> get_qty s' (PStr (ascii ''banana'')) = Inr (PInt 0, s')"
  using remove_item_deletes_entry [of example "[(ascii ''apple'', PInt 10), (ascii ''banana'', PInt 2)]"
      "ascii ''banana''" "PInt 2" 2 "PInt 2" 2]
  by (simp add: example_def ascii_def AList.delete_eq)

section \<open>\<^verbatim>\<open>check_low_items\<close>\<close>

lemma low_items_dict:
  assumes "distinct (map fst d)"
    and "\<forall>(k, v) \<in> set d. isinstance_int v"
    and "as_int threshold = Some t"
    and "set e \<subseteq> set d"
  shows "low_items (PDict d) threshold (map (\<lambda>(k, v). PStr k) e)
           = Inr (map (\<lambda>(k, v). PStr k) (filter (\<lambda>(k, v). quantity v < t) e))"
  using assms(4)
proof (induction e)
  case Nil
  then show ?case by simp
next
  case (Cons kv e)
  obtain k v where kv: "kv = (k, v)" by (cases kv)
  with Cons.prems have mem: "(k, v) \<in> set d" by simp
  with assms(1) have look: "map_of d k = Some v" by simp
  from mem assms(2) obtain n where n: "as_int v = Some n"
    by (auto simp: isinstance_int_def)
  from Cons have IH: "low_items (PDict d) threshold (map (\<lambda>(k, v). PStr k) e)
           = Inr (map (\<lambda>(k, v). PStr k) (filter (\<lambda>(k, v). quantity v < t) e))" by simp
  show ?case
    by (simp add: kv subscript_def look py_lt_def n assms(3) IH quantity_def)
qed

text \<open>
  Claim C4. For a stock that is a dict (distinct keys, in insertion order) with integer
  quantities and an integer threshold \<open>t\<close>, \<^verbatim>\<open>check_low_items\<close> returns the keys whose
  quantity is strictly below \<open>t\<close>, in the order of the dict, and nothing else: a key whose
  quantity equals \<open>t\<close> is left out. The state after the call is the state before it.
\<close>

theorem check_low_items_exact:
  assumes "stock_data s = PDict d"
    and "distinct (map fst d)"
    and "\<forall>(k, v) \<in> set d. isinstance_int v"
    and "as_int threshold = Some t"
  shows "check_low_items s threshold
           = Inr (PList (map (\<lambda>(k, v). PStr k) (filter (\<lambda>(k, v). quantity v < t) d)), s)"
  using low_items_dict [OF assms(2,3,4), of d] assms(1)
  by (simp add: check_low_items_def py_iter_def)

theorem check_low_items_exact_witness:
  "check_low_items example (PInt 5) = Inr (PList [PStr (ascii ''banana'')], example)
   \<and> check_low_items example (PInt 2) = Inr (PList [], example)"
  using check_low_items_exact [of example "[(ascii ''apple'', PInt 10), (ascii ''banana'', PInt 2)]" "PInt 5" 5]
    check_low_items_exact [of example "[(ascii ''apple'', PInt 10), (ascii ''banana'', PInt 2)]" "PInt 2" 2]
  by (simp add: example_def ascii_def isinstance_int_def quantity_def)

section \<open>\<^verbatim>\<open>load_data\<close>\<close>





section \<open>The nesting bound of \<open>json_loads\<close>\<close>

lemma skip_ws_length: "length (skip_ws cs) \<le> length cs"
  by (simp add: skip_ws_def length_dropWhile_le)

lemma cons_char_Some: "cons_char c res = Some (s, r) \<Longrightarrow> \<exists>s'. res = Some (s', r)"
  by (auto simp: cons_char_def split: option.splits)

lemma scanstring_shorter: "scanstring cs = Some (s, r) \<Longrightarrow> length r < length cs"
proof (induction cs arbitrary: s rule: scanstring.induct)
  case 1
  then show ?case by simp
next
  case (2 c cs)
  show ?case
  proof (cases "c = 34")
    case True
    with "2.prems" show ?thesis by simp
  next
    case c34: False
    show ?thesis
    proof (cases "c = 92")
      case False
      with c34 "2.prems" obtain s' where "scanstring cs = Some (s', r)"
        by (auto split: if_splits dest: cons_char_Some)
      with "2.IH"(4) [OF c34 False] "2.prems" False c34 show ?thesis
        by (fastforce split: if_splits)
    next
      case True
      with "2.prems" obtain e r0 where cs: "cs = e # r0" by (cases cs) auto
      show ?thesis
      proof (cases "e = 117")
        case False
        with True c34 cs "2.prems" obtain x s' where "unescape e = Some x" "scanstring r0 = Some (s', r)"
          by (auto split: option.splits dest: cons_char_Some)
        with "2.IH"(3) [OF c34 True cs False] show ?thesis
          by (fastforce simp: cs)
      next
        case e: True
        with True c34 cs "2.prems" obtain u r1 where d: "decode_uXXXX r0 = Some (u, r1)"
          by (auto split: option.splits)
        from decode_uXXXX_shorter [OF d] have r1: "length r1 < length r0" .
        show ?thesis
        proof (cases "join_surrogate u r1")
          case None
          with True c34 cs e d "2.prems" obtain s' where "scanstring r1 = Some (s', r)"
            by (auto dest: cons_char_Some)
          with "2.IH"(1) [OF c34 True cs e d refl None] r1 show ?thesis
            by (fastforce simp: cs)
        next
          case (Some p)
          obtain u' r2 where p: "p = (u', r2)" by (cases p)
          from join_surrogate_shorter [OF Some [unfolded p]] have r2: "length r2 < length r1" .
          from Some p True c34 cs e d "2.prems" obtain s' where "scanstring r2 = Some (s', r)"
            by (auto dest: cons_char_Some)
          with "2.IH"(2) [OF c34 True cs e d refl Some [unfolded p] refl] r1 r2 show ?thesis
            by (fastforce simp: cs)
        qed
      qed
    qed
  qed
qed

lemma dropWhile_bound: "length xs \<le> n \<Longrightarrow> length (dropWhile P xs) \<le> n"
  using length_dropWhile_le [of P xs] by simp

lemma match_integer_shorter: "match_integer cs = Some (l, r) \<Longrightarrow> length r < length cs"
  by (auto simp: match_integer_def Let_def less_Suc_eq_le
      intro!: dropWhile_bound split: list.splits if_splits)

lemma match_frac_length: "match_frac cs = (l, r) \<Longrightarrow> length r \<le> length cs"
  by (auto simp: match_frac_def intro!: dropWhile_bound split: list.splits if_splits)

lemma match_exp_length: "match_exp cs = (l, r) \<Longrightarrow> length r \<le> length cs"
  by (auto simp: match_exp_def Let_def intro!: dropWhile_bound
      split: list.splits if_splits)

lemma match_number_shorter: "match_number cs = Some (v, r) \<Longrightarrow> length r < length cs"
proof -
  assume a: "match_number cs = Some (v, r)"
  then obtain ip r0 where i: "match_integer cs = Some (ip, r0)"
    by (auto simp: match_number_def split: option.splits)
  obtain fr r1 where f: "match_frac r0 = (fr, r1)" by (cases "match_frac r0")
  obtain ex r2 where e: "match_exp r1 = (ex, r2)" by (cases "match_exp r1")
  from a i f e have "r = r2" by (auto simp: match_number_def split: if_splits)
  with match_integer_shorter [OF i] match_frac_length [OF f] match_exp_length [OF e]
  show ?thesis by simp
qed

lemma scan_once_scalar:
  assumes "c \<noteq> 123" and "c \<noteq> 91"
  shows "scan_once (Suc f) (c # cs) = scan_once (Suc g) (c # cs)"
  using assms by simp

lemma scan_once_scalar_shorter:
  assumes "c \<noteq> 123" and "c \<noteq> 91" and "scan_once (Suc f) (c # cs) = Some (v, r)"
  shows "length r < Suc (length cs)"
  using assms(3) assms(1,2)
  by (auto simp: less_Suc_eq_le split: option.splits if_splits
      dest!: scanstring_shorter match_number_shorter)

lemma fuel_once_step:
  assumes "fuel_array f" and "fuel_object f"
  shows "fuel_once (Suc f)"
  unfolding fuel_once_def
proof (intro allI impI)
  fix cs v r
  assume a: "scan_once (Suc f) cs = Some (v, r)"
  then obtain c cs' where cs: "cs = c # cs'" by (cases cs) auto
  have "(c \<noteq> 123 \<and> c \<noteq> 91) \<or> (\<exists>d r0. skip_ws cs' = d # r0)"
    using a by (cases "skip_ws cs'") (auto simp: cs)
  then consider (scalar) "c \<noteq> 123" "c \<noteq> 91"
    | (empty) d r0 where "skip_ws cs' = d # r0" "(c = 123 \<and> d = 125) \<or> (c = 91 \<and> d = 93)"
    | (obj) d r0 where "c = 123" "skip_ws cs' = d # r0" "d \<noteq> 125"
    | (arr) d r0 where "c = 91" "skip_ws cs' = d # r0" "d \<noteq> 93"
    by blast
  then show "length r < length cs \<and>
     (\<forall>g. 2 * (length cs - length r) \<le> g \<longrightarrow> scan_once g cs = Some (v, r))"
  proof cases
    case scalar
    from scan_once_scalar_shorter [OF scalar a [unfolded cs]] have len: "length r < length cs"
      by (simp add: cs)
    have "scan_once g cs = Some (v, r)" if "2 * (length cs - length r) \<le> g" for g
    proof -
      from that len obtain g' where "g = Suc g'" by (cases g) auto
      with scan_once_scalar [OF scalar, of g' cs' f] a show ?thesis by (simp add: cs)
    qed
    with len show ?thesis by blast
  next
    case empty
    with a have r: "r = r0" by (auto simp: cs)
    have "length (skip_ws cs') \<le> length cs'" by (rule skip_ws_length)
    with empty(1) r have len: "length r < length cs" by (simp add: cs)
    have "scan_once g cs = Some (v, r)" if "2 * (length cs - length r) \<le> g" for g
    proof -
      from that len obtain g' where "g = Suc g'" by (cases g) auto
      with a empty show ?thesis by (auto simp: cs)
    qed
    with len show ?thesis by blast
  next
    case obj
    with a have o: "scan_object f [] (d # r0) = Some (v, r)" by (simp add: cs)
    with assms(2) have len0: "length r < length (d # r0)"
      and fuel: "\<And>g. 2 * (length (d # r0) - length r) - 1 \<le> g \<Longrightarrow> scan_object g [] (d # r0) = Some (v, r)"
      unfolding fuel_object_def by blast+
    have "length (d # r0) \<le> length cs'" using skip_ws_length [of cs'] obj(2) by simp
    with len0 have len: "length r < length cs" and le: "length (d # r0) < length cs"
      by (simp_all add: cs)
    have "scan_once g cs = Some (v, r)" if "2 * (length cs - length r) \<le> g" for g
    proof -
      from that len obtain g' where g: "g = Suc g'" by (cases g) auto
      with that le have "2 * (length (d # r0) - length r) - 1 \<le> g'" by linarith
      from fuel [OF this] obj g show ?thesis by (simp add: cs)
    qed
    with len show ?thesis by blast
  next
    case arr
    with a have o: "scan_array f [] (d # r0) = Some (v, r)" by (simp add: cs)
    with assms(1) have len0: "length r < length (d # r0)"
      and fuel: "\<And>g. 2 * (length (d # r0) - length r) - 1 \<le> g \<Longrightarrow> scan_array g [] (d # r0) = Some (v, r)"
      unfolding fuel_array_def by blast+
    have "length (d # r0) \<le> length cs'" using skip_ws_length [of cs'] arr(2) by simp
    with len0 have len: "length r < length cs" and le: "length (d # r0) < length cs"
      by (simp_all add: cs)
    have "scan_once g cs = Some (v, r)" if "2 * (length cs - length r) \<le> g" for g
    proof -
      from that len obtain g' where g: "g = Suc g'" by (cases g) auto
      with that le have "2 * (length (d # r0) - length r) - 1 \<le> g'" by linarith
      from fuel [OF this] arr g show ?thesis by (simp add: cs)
    qed
    with len show ?thesis by blast
  qed
qed

lemma fuel_array_step:
  assumes "fuel_once f" and "fuel_array f"
  shows "fuel_array (Suc f)"
  unfolding fuel_array_def
proof (intro allI impI)
  fix acc cs v r
  assume a: "scan_array (Suc f) acc cs = Some (v, r)"
  then obtain w r0 where w: "scan_once f cs = Some (w, r0)"
    by (auto split: option.splits)
  with assms(1) have len0: "length r0 < length cs"
    and fuel0: "\<And>g. 2 * (length cs - length r0) \<le> g \<Longrightarrow> scan_once g cs = Some (w, r0)"
    unfolding fuel_once_def by blast+
  from a w obtain d r1 where ws: "skip_ws r0 = d # r1"
    by (cases "skip_ws r0") auto
  have len1: "length r1 < length r0" using skip_ws_length [of r0] ws by simp
  from a w ws consider (close) "d = 93" "v = PList (acc @ [w])" "r = r1"
    | (comma) "d \<noteq> 93" "d = 44" "scan_array f (acc @ [w]) (skip_ws r1) = Some (v, r)"
    by (auto split: if_splits)
  then show "length r < length cs \<and>
     (\<forall>g. 2 * (length cs - length r) - 1 \<le> g \<longrightarrow> scan_array g acc cs = Some (v, r))"
  proof cases
    case close
    have len: "length r < length cs" using len0 len1 close by simp
    have "scan_array g acc cs = Some (v, r)" if "2 * (length cs - length r) - 1 \<le> g" for g
    proof -
      from that len obtain g' where g: "g = Suc g'" by (cases g) auto
      with that len0 len1 close have "2 * (length cs - length r0) \<le> g'" by simp
      from fuel0 [OF this] ws close g show ?thesis by simp
    qed
    with len show ?thesis by blast
  next
    case comma
    with assms(2) have len2: "length r < length (skip_ws r1)"
      and fuel2: "\<And>g. 2 * (length (skip_ws r1) - length r) - 1 \<le> g
                    \<Longrightarrow> scan_array g (acc @ [w]) (skip_ws r1) = Some (v, r)"
      unfolding fuel_array_def by blast+
    have len3: "length (skip_ws r1) \<le> length r1" by (rule skip_ws_length)
    have len: "length r < length cs" using len0 len1 len2 len3 by simp
    have "scan_array g acc cs = Some (v, r)" if "2 * (length cs - length r) - 1 \<le> g" for g
    proof -
      from that len obtain g' where g: "g = Suc g'" by (cases g) auto
      with that len0 len1 len2 len3 have "2 * (length cs - length r0) \<le> g'"
        and "2 * (length (skip_ws r1) - length r) - 1 \<le> g'" by linarith+
      from fuel0 [OF this(1)] fuel2 [OF this(2)] ws comma g show ?thesis by simp
    qed
    with len show ?thesis by blast
  qed
qed

lemma fuel_object_step:
  assumes "fuel_once f" and "fuel_object f"
  shows "fuel_object (Suc f)"
  unfolding fuel_object_def
proof (intro allI impI)
  fix acc cs v r
  assume a: "scan_object (Suc f) acc cs = Some (v, r)"
  then obtain q c0 where cs: "cs = q # c0" "q = 34" by (cases cs) (auto split: if_splits)
  from a cs obtain k c1 where k: "scanstring c0 = Some (k, c1)"
    by (auto split: option.splits)
  from scanstring_shorter [OF k] have l1: "length c1 < length c0" .
  from a cs k obtain d c2 where ws1: "skip_ws c1 = d # c2" "d = 58"
    by (cases "skip_ws c1") (auto split: if_splits)
  have l2: "length c2 < length c1" using skip_ws_length [of c1] ws1 by simp
  from a cs k ws1 obtain w r0 where w: "scan_once f (skip_ws c2) = Some (w, r0)"
    by (auto split: option.splits)
  with assms(1) have len0: "length r0 < length (skip_ws c2)"
    and fuel0: "\<And>g. 2 * (length (skip_ws c2) - length r0) \<le> g
                  \<Longrightarrow> scan_once g (skip_ws c2) = Some (w, r0)"
    unfolding fuel_once_def by blast+
  have l3: "length (skip_ws c2) \<le> length c2" by (rule skip_ws_length)
  from a cs k ws1 w obtain e r1 where ws: "skip_ws r0 = e # r1"
    by (cases "skip_ws r0") auto
  have len1: "length r1 < length r0" using skip_ws_length [of r0] ws by simp
  from a cs k ws1 w ws consider (close) "e = 125" "v = PDict (dict_of_pairs (acc @ [(k, w)]))" "r = r1"
    | (comma) "e \<noteq> 125" "e = 44" "scan_object f (acc @ [(k, w)]) (skip_ws r1) = Some (v, r)"
    by (auto split: if_splits)
  then show "length r < length cs \<and>
     (\<forall>g. 2 * (length cs - length r) - 1 \<le> g \<longrightarrow> scan_object g acc cs = Some (v, r))"
  proof cases
    case close
    have len: "length r < length cs" using l1 l2 l3 len0 len1 close cs by simp
    have "scan_object g acc cs = Some (v, r)" if "2 * (length cs - length r) - 1 \<le> g" for g
    proof -
      from that len obtain g' where g: "g = Suc g'" by (cases g) auto
      with that l1 l2 l3 len0 len1 close cs(1)
      have "2 * (length (skip_ws c2) - length r0) \<le> g'" by simp
      from fuel0 [OF this] ws close g cs k ws1 show ?thesis by simp
    qed
    with len show ?thesis by blast
  next
    case comma
    with assms(2) have len2: "length r < length (skip_ws r1)"
      and fuel2: "\<And>g. 2 * (length (skip_ws r1) - length r) - 1 \<le> g
                    \<Longrightarrow> scan_object g (acc @ [(k, w)]) (skip_ws r1) = Some (v, r)"
      unfolding fuel_object_def by blast+
    have len3: "length (skip_ws r1) \<le> length r1" by (rule skip_ws_length)
    have len: "length r < length cs" using l1 l2 l3 len0 len1 len2 len3 cs by simp
    have "scan_object g acc cs = Some (v, r)" if "2 * (length cs - length r) - 1 \<le> g" for g
    proof -
      from that len obtain g' where g: "g = Suc g'" by (cases g) auto
      with that l1 l2 l3 len0 len1 len2 len3 cs(1)
      have "2 * (length (skip_ws c2) - length r0) \<le> g'"
        and "2 * (length (skip_ws r1) - length r) - 1 \<le> g'" by simp_all
      from fuel0 [OF this(1)] fuel2 [OF this(2)] ws comma g cs k ws1 show ?thesis by simp
    qed
    with len show ?thesis by blast
  qed
qed

lemma fuel_all: "fuel_once f \<and> fuel_array f \<and> fuel_object f"
proof (induction f)
  case 0
  show ?case by (simp add: fuel_once_def fuel_array_def fuel_object_def)
next
  case (Suc f)
  then show ?case
    by (simp add: fuel_once_step fuel_array_step fuel_object_step)
qed

text \<open>
  Whenever a scan of the whole text succeeds with any bound at all, \<open>json_loads\<close> returns its
  result; so \<open>json_loads\<close> returns \<open>None\<close> only for a text that is no JSON document.
\<close>

lemma json_loads_fuel:
  assumes "scan_once f (skip_ws s) = Some (v, r)"
  shows "json_loads s = (if skip_ws r = [] then Some v else None)"
proof -
  from fuel_all [of f] assms have "length r < length (skip_ws s)"
    and fuel: "\<And>g. 2 * (length (skip_ws s) - length r) \<le> g \<Longrightarrow> scan_once g (skip_ws s) = Some (v, r)"
    unfolding fuel_once_def by blast+
  have "2 * (length (skip_ws s) - length r) \<le> 2 * length s + 2"
    using skip_ws_length [of s] by simp
  from fuel [OF this] show ?thesis by (simp add: json_loads_def)
qed

section \<open>Writing and reading a stock of integers\<close>

subsection \<open>Strings\<close>






lemma hex4_length: "length (hex4 n) = 4"
  by (simp add: hex4_def)










subsection \<open>Integers\<close>











subsection \<open>Objects\<close>
















section \<open>\<^verbatim>\<open>save_data\<close> followed by \<^verbatim>\<open>load_data\<close>\<close>












section \<open>The stock invariant\<close>

lemma positive_quantity: "0 < quantity v \<Longrightarrow> \<exists>n. as_int v = Some n \<and> 0 < n"
  by (auto simp: quantity_def split: option.splits)

lemma set_update_subset: "set (AList.update k v d) \<subseteq> insert (k, v) (set d)"
  by (induction d) auto

lemma set_delete_subset: "set (AList.delete k d) \<subseteq> set d"
  by (auto simp: AList.delete_eq)

lemma positive_update:
  assumes "\<forall>(k, v) \<in> set d. 0 < quantity v" and "0 < quantity v"
  shows "\<forall>(k, v) \<in> set (AList.update k v d). 0 < quantity v"
  using assms set_update_subset [of k v d] by fastforce

lemma positive_delete:
  assumes "\<forall>(k, v) \<in> set d. 0 < quantity v"
  shows "\<forall>(k, v) \<in> set (AList.delete k d). 0 < quantity v"
  using assms set_delete_subset [of k d] by fastforce

lemma dict_get0_nonneg:
  assumes "\<forall>(k, v) \<in> set d. 0 < quantity v"
  shows "\<exists>n. as_int (dict_get0 d k) = Some n \<and> 0 \<le> n"
proof (cases "map_of d k")
  case None
  then show ?thesis by (simp add: dict_get0_def)
next
  case (Some v)
  then have "(k, v) \<in> set d" by (rule map_of_SomeD)
  with assms have "0 < quantity v" by auto
  from positive_quantity [OF this] Some show ?thesis by (auto simp: dict_get0_def)
qed

lemma add_item_positive:
  assumes "positive_stock (stock_data s)" and "admissible s (Add item qty)"
    and "add_item s item qty = Inr (r, s')"
  shows "positive_stock (stock_data s')"
proof -
  from assms(1) obtain d where d: "stock_data s = PDict d" "\<forall>(k, v) \<in> set d. 0 < quantity v"
    by (auto simp: positive_stock_def split: pyval.splits)
  show ?thesis
  proof (cases "\<exists>k. item = PStr k \<and> k \<noteq> ascii ''default'' \<and> isinstance_int qty")
    case False
    then have "add_item s item qty = Inr (PNone, logging WARNING s)"
      by (auto simp: add_item_def split: pyval.splits)
    with assms(1,3) show ?thesis by (auto simp: logging_def)
  next
    case True
    then obtain k where k: "item = PStr k" "k \<noteq> ascii ''default''" "isinstance_int qty" by blast
    with assms(2) have "0 < quantity qty" by (simp add: admissible_def)
    from positive_quantity [OF this] obtain q where q: "as_int qty = Some q" "0 < q" by blast
    from dict_get0_nonneg [OF d(2)] obtain n where n: "as_int (dict_get0 d k) = Some n" "0 \<le> n"
      by blast
    have "s' = logging INFO (s\<lparr>stock_data := PDict (AList.update k (PInt (n + q)) d)\<rparr>)"
      using assms(3) k d(1) q n by (simp add: add_item_def py_add_def)
    moreover have "\<forall>(k, v) \<in> set (AList.update k (PInt (n + q)) d). 0 < quantity v"
      using d(2) q(2) n(2) by (intro positive_update) (simp_all add: quantity_def)
    ultimately show ?thesis by (simp add: positive_stock_def logging_def)
  qed
qed

lemma remove_item_positive:
  assumes "positive_stock (stock_data s)" and "remove_item s item qty = Inr (r, s')"
  shows "positive_stock (stock_data s')"
proof -
  from assms(1) obtain d where d: "stock_data s = PDict d" "\<forall>(k, v) \<in> set d. 0 < quantity v"
    by (auto simp: positive_stock_def split: pyval.splits)
  show ?thesis
  proof (cases "\<exists>k v. item = PStr k \<and> isinstance_int qty \<and> map_of d k = Some v")
    case False
    then have "remove_item s item qty = Inr (PNone, logging WARNING s)"
      using d(1) by (auto simp: remove_item_def split: pyval.splits option.splits)
    with assms show ?thesis by (auto simp: logging_def)
  next
    case True
    then obtain k v where k: "item = PStr k" "isinstance_int qty" "map_of d k = Some v" by blast
    from k(2) obtain q where q: "as_int qty = Some q" by (auto simp: isinstance_int_def)
    from k(3) have "(k, v) \<in> set d" by (rule map_of_SomeD)
    with d(2) have "0 < quantity v" by auto
    from positive_quantity [OF this] obtain n where n: "as_int v = Some n" "0 < n" by blast
    show ?thesis
    proof (cases "n - q \<le> 0")
      case True
      then have "s' = logging INFO (s\<lparr>stock_data := PDict (AList.delete k d)\<rparr>)"
        using assms(2) k d(1) q n
        by (simp add: remove_item_def py_sub_def py_le_def AList.delete_update_same)
      with positive_delete [OF d(2), of k] show ?thesis
        by (simp add: positive_stock_def logging_def)
    next
      case False
      then have "s' = s\<lparr>stock_data := PDict (AList.update k (PInt (n - q)) d)\<rparr>"
        using assms(2) k d(1) q n
        by (simp add: remove_item_def py_sub_def py_le_def)
      moreover have "\<forall>(k, v) \<in> set (AList.update k (PInt (n - q)) d). 0 < quantity v"
        using d(2) False by (intro positive_update) (simp_all add: quantity_def)
      ultimately show ?thesis by (simp add: positive_stock_def)
    qed
  qed
qed

lemma load_data_positive:
  assumes "admissible s (Load file)" and "load_data s file = Inr (r, s')"
  shows "positive_stock (stock_data s')"
  using assms
  by (auto simp: load_data_def admissible_def logging_def positive_stock_def
      split: fentry.splits option.splits)

lemma step_positive:
  assumes "positive_stock (stock_data s)" and "admissible s c" and "step s c = Inr (r, s')"
  shows "positive_stock (stock_data s')"
  using assms
  by (cases c) (auto intro: add_item_positive remove_item_positive load_data_positive)


lemma demo_run:
  "run (InventorySystem example) demo
     = example\<lparr>stock_data := PDict [(ascii ''apple'', PInt 7), (ascii ''banana'', PInt 2)],
               log_records := [WARNING, INFO, INFO, WARNING, WARNING]\<rparr>"
  by (simp add: demo_def InventorySystem_def example_def load_data_def add_item_def
      remove_item_def logging_def ascii_def isinstance_int_def dict_get0_def py_add_def
      py_sub_def py_le_def)

lemma demo_admissible: "admissible_run (InventorySystem example) demo"
  by (simp add: demo_def InventorySystem_def example_def load_data_def add_item_def
      remove_item_def logging_def ascii_def isinstance_int_def dict_get0_def py_add_def
      py_sub_def py_le_def admissible_def quantity_def)

text \<open>
  Claim C1 says that no reachable stock holds a quantity of zero or less. \<^verbatim>\<open>add_item\<close> has no
  sign check and never deletes an entry: on the empty stock, \<^verbatim>\<open>add_item("apple", -5)\<close> stores
  the entry \<^verbatim>\<open>"apple": -5\<close>.
\<close>

theorem positive_stock_counterexample:
  "stock_data (run (InventorySystem example) [Add (PStr (ascii ''apple'')) (PInt (- 5))])
     = PDict [(ascii ''apple'', PInt (- 5))]
   \<and> \<not> positive_stock (PDict [(ascii ''apple'', PInt (- 5))])"
  by (simp add: InventorySystem_def example_def add_item_def logging_def ascii_def
      isinstance_int_def dict_get0_def py_add_def positive_stock_def quantity_def)

text \<open>
  Claim C1, amended. Start from the empty stock and run any sequence of \<^verbatim>\<open>add_item\<close>,
  \<^verbatim>\<open>remove_item\<close> and \<^verbatim>\<open>load_data\<close> calls in which every accepted \<^verbatim>\<open>add_item\<close> has a
  quantity above zero and every file that \<^verbatim>\<open>load_data\<close> parses holds a dict of integers above
  zero. Then the stock is a dict in which every quantity is an integer above zero: a
  \<^verbatim>\<open>remove_item\<close> whose result is zero or less deletes its entry in the same call.
\<close>

theorem positive_stock_invariant:
  assumes "admissible_run (InventorySystem s) cs"
  shows "positive_stock (stock_data (run (InventorySystem s) cs))"
proof -
  have "positive_stock (stock_data (run t cs))"
    if "positive_stock (stock_data t)" and "admissible_run t cs" for t
    using that
  proof (induction cs arbitrary: t)
    case Nil
    then show ?case by simp
  next
    case (Cons c cs)
    show ?case
    proof (cases "step t c")
      case (Inl e)
      with Cons show ?thesis by simp
    next
      case (Inr p)
      obtain r t' where p: "p = (r, t')" by (cases p)
      from Cons.prems Inr p have "positive_stock (stock_data t')"
        by (auto intro: step_positive)
      moreover from Cons.prems Inr p have "admissible_run t' cs" by simp
      ultimately show ?thesis using Cons.IH Inr p by simp
    qed
  qed
  moreover have "positive_stock (stock_data (InventorySystem s))"
    by (simp add: InventorySystem_def positive_stock_def)
  ultimately show ?thesis using assms by blast
qed


theorem positive_stock_invariant_witness:
  "admissible_run (InventorySystem example) demo
   \<and> positive_stock (stock_data (run (InventorySystem example) demo))
   \<and> stock_data (run (InventorySystem example) demo)
       = PDict [(ascii ''apple'', PInt 7), (ascii ''banana'', PInt 2)]"
  using positive_stock_invariant [OF demo_admissible] demo_admissible demo_run by simp

end
